theory Spec2Isabelle
  imports Complex_Main "HOL-Library.Tree" "HOL-Library.List_Lexorder" "HOL-Library.Char_ord"
begin

unbundle bit_operations_syntax

section \<open>Python values and exceptions\<close>

text \<open>
  The exceptions the two modules can raise.  A method that can raise returns
  \<open>error + 'a\<close>, with \<open>Inl\<close> for the exception.
\<close>

datatype error = ValueError | ZeroDivisionError | IndexError | AttributeError | OverflowError

text \<open>
  The argument of \<open>BloomFilter.add\<close> and \<open>BloomFilter.contains\<close> is any Python
  object; only \<open>isinstance(item, str)\<close> is asked of it.  A \<open>str\<close> is modelled by
  a \<open>string\<close> whose characters are the code points 0 to 255 (the Latin-1 block
  of Unicode, which \<open>str.lower\<close> and \<open>str.strip\<close> map into itself).
\<close>

datatype pyval = PyStr string | PyInt int | PyNone | PyList "pyval list"

definition ord :: "char \<Rightarrow> int" where
  "ord c = of_char c"

text \<open>\<open>str.strip()\<close> removes leading and trailing white space: the code points
  9 to 13, 28 to 32, 133 and 160 are the white space below 256.\<close>

definition isspace :: "char \<Rightarrow> bool" where
  "isspace c = (let n = ord c in (9 \<le> n \<and> n \<le> 13) \<or> (28 \<le> n \<and> n \<le> 32) \<or> n = 133 \<or> n = 160)"

definition strip :: "string \<Rightarrow> string" where
  "strip s = rev (dropWhile isspace (rev (dropWhile isspace s)))"

text \<open>\<open>str.lower()\<close>: below 256 the upper-case letters are 65 to 90 and 192 to
  222 except 215; each has its lower-case form 32 above.\<close>

definition lower_char :: "char \<Rightarrow> char" where
  "lower_char c = (let n = ord c in
     if (65 \<le> n \<and> n \<le> 90) \<or> (192 \<le> n \<and> n \<le> 222 \<and> n \<noteq> 215) then char_of (n + 32) else c)"

definition lower :: "string \<Rightarrow> string" where
  "lower s = map lower_char s"

text \<open>\<open>key.encode('utf-8')\<close>: one byte below 128, two bytes from 128 to 255.\<close>

definition encode_utf8 :: "string \<Rightarrow> int list" where
  "encode_utf8 s = concat (map (\<lambda>c. let n = ord c in
     if n < 128 then [n] else [192 + n div 64, 128 + n mod 64]) s)"

text \<open>\<open>a % b\<close> on Python integers: floor remainder (as \<open>mod\<close> on \<open>int\<close>),
  raising on a zero divisor.\<close>

definition py_mod :: "int \<Rightarrow> int \<Rightarrow> error + int" where
  "py_mod a b = (if b = 0 then Inl ZeroDivisionError else Inr (a mod b))"

text \<open>\<open>xs[i]\<close> and \<open>xs[i] = v\<close> on a Python list: a negative index counts from the
  end, and an index outside \<open>-len(xs) \<le> i < len(xs)\<close> raises \<open>IndexError\<close>.\<close>

definition list_index :: "'a list \<Rightarrow> int \<Rightarrow> nat option" where
  "list_index xs i =
     (let n = int (length xs); j = (if i < 0 then i + n else i)
      in if 0 \<le> j \<and> j < n then Some (nat j) else None)"

definition list_get :: "'a list \<Rightarrow> int \<Rightarrow> error + 'a" where
  "list_get xs i = (case list_index xs i of None \<Rightarrow> Inl IndexError | Some j \<Rightarrow> Inr (xs ! j))"

definition list_set :: "'a list \<Rightarrow> int \<Rightarrow> 'a \<Rightarrow> error + 'a list" where
  "list_set xs i v = (case list_index xs i of None \<Rightarrow> Inl IndexError | Some j \<Rightarrow> Inr (xs[j := v]))"

section \<open>Python floats\<close>

text \<open>
  A Python \<open>float\<close> is an IEEE-754 binary64 value: a finite number, an infinity
  or a NaN.  A finite float is modelled by the real number it denotes (the two
  zeros are one value: no operation below tells them apart), and an operation on
  finite floats by the exact result on reals rounded to the nearest binary64
  number, ties to the even significand.
\<close>

datatype pyfloat = Float real | PosInf | NegInf | NaN

text \<open>Rounding to the nearest integer, ties to even.\<close>

definition round_even :: "real \<Rightarrow> int" where
  "round_even x = (let f = \<lfloor>x\<rfloor>; d = x - of_int f in
     if d < 1/2 then f else if 1/2 < d then f + 1 else if even f then f else f + 1)"

text \<open>The exponent of the unit in the last place of the binary64 numbers next
  to \<open>x\<close>: 52 below the exponent of \<open>x\<close>, and -1074 for the subnormal numbers.\<close>

definition fexp :: "real \<Rightarrow> int" where
  "fexp x = max \<lfloor>log 2 \<bar>x\<bar>\<rfloor> (- 1022) - 52"

text \<open>Rounding a real to binary64.  The largest finite float is
  \<open>2^1024 - 2^971\<close>; a real at or beyond \<open>2^1024 - 2^970\<close>, half a unit above it,
  rounds to an infinity.\<close>

definition rnd :: "real \<Rightarrow> pyfloat" where
  "rnd x = (if x = 0 then Float 0
     else if 2 ^ 1024 - 2 ^ 970 \<le> \<bar>x\<bar> then (if 0 < x then PosInf else NegInf)
     else Float (of_int (round_even (x / 2 powi fexp x)) * 2 powi fexp x))"

text \<open>The conversion of an \<open>int\<close> operand of a float operation: correctly
  rounded, and \<open>OverflowError\<close> when the integer is too large for a float.\<close>

definition float_of_int :: "int \<Rightarrow> error + pyfloat" where
  "float_of_int n = (case rnd (of_int n) of Float r \<Rightarrow> Inr (Float r) | _ \<Rightarrow> Inl OverflowError)"

text \<open>An infinity of the sign of \<open>s\<close>; NaN for the product of an infinity and
  zero.\<close>

definition finf :: "real \<Rightarrow> pyfloat" where
  "finf s = (if s = 0 then NaN else if 0 < s then PosInf else NegInf)"

text \<open>\<open>-a\<close>, \<open>a * b\<close> and \<open>a / b\<close> on floats; only the division raises.\<close>

fun fneg :: "pyfloat \<Rightarrow> pyfloat" where
  "fneg (Float x) = Float (- x)"
| "fneg PosInf = NegInf"
| "fneg NegInf = PosInf"
| "fneg NaN = NaN"

fun fmul :: "pyfloat \<Rightarrow> pyfloat \<Rightarrow> pyfloat" where
  "fmul (Float x) (Float y) = rnd (x * y)"
| "fmul (Float x) PosInf = finf x"
| "fmul (Float x) NegInf = finf (- x)"
| "fmul PosInf (Float y) = finf y"
| "fmul NegInf (Float y) = finf (- y)"
| "fmul PosInf PosInf = PosInf"
| "fmul PosInf NegInf = NegInf"
| "fmul NegInf PosInf = NegInf"
| "fmul NegInf NegInf = PosInf"
| "fmul NaN b = NaN"
| "fmul a NaN = NaN"

fun fdiv :: "pyfloat \<Rightarrow> pyfloat \<Rightarrow> error + pyfloat" where
  "fdiv a (Float y) =
     (if y = 0 then Inl ZeroDivisionError
      else Inr (case a of Float x \<Rightarrow> rnd (x / y) | PosInf \<Rightarrow> finf y | NegInf \<Rightarrow> finf (- y)
                | NaN \<Rightarrow> NaN))"
| "fdiv (Float x) PosInf = Inr (Float 0)"
| "fdiv (Float x) NegInf = Inr (Float 0)"
| "fdiv a b = Inr NaN"

text \<open>\<open>a ** 2\<close> on a float: \<open>OverflowError\<close> when the square of a finite float
  is not finite.\<close>

definition float_pow2 :: "pyfloat \<Rightarrow> error + pyfloat" where
  "float_pow2 a =
     (case a of
        Float x \<Rightarrow> (case rnd (x * x) of Float y \<Rightarrow> Inr (Float y) | _ \<Rightarrow> Inl OverflowError)
      | NaN \<Rightarrow> Inr NaN
      | _ \<Rightarrow> Inr PosInf)"

text \<open>\<open>m / n\<close> on two integers: the correctly rounded quotient,
  \<open>ZeroDivisionError\<close> for \<open>n = 0\<close>, \<open>OverflowError\<close> when the quotient is too
  large for a float.\<close>

definition int_truediv :: "int \<Rightarrow> int \<Rightarrow> error + pyfloat" where
  "int_truediv m n =
     (if n = 0 then Inl ZeroDivisionError
      else (case rnd (of_int m / of_int n) of Float y \<Rightarrow> Inr (Float y) | _ \<Rightarrow> Inl OverflowError))"

text \<open>\<open>math.ceil(a)\<close> returns an \<open>int\<close>; it raises \<open>ValueError\<close> on a NaN and
  \<open>OverflowError\<close> on an infinity.\<close>

definition math_ceil :: "pyfloat \<Rightarrow> error + int" where
  "math_ceil a = (case a of Float x \<Rightarrow> Inr \<lceil>x\<rceil> | NaN \<Rightarrow> Inl ValueError | _ \<Rightarrow> Inl OverflowError)"

text \<open>\<open>math.log(a)\<close> raises \<open>ValueError\<close> unless \<open>a > 0\<close> or \<open>a\<close> is a NaN.  Its
  value is the one of the C library's \<open>log\<close>, which is taken here to be the
  correctly rounded logarithm; at the arguments 2 and 0.5, the only ones whose
  logarithm the theorems below evaluate, that is
  \<open>0.6931471805599453\<close> (\<open>0x1.62e42fefa39efp-1\<close>) and its negative.\<close>

definition math_log :: "pyfloat \<Rightarrow> error + pyfloat" where
  "math_log a =
     (case a of
        Float x \<Rightarrow> if x \<le> 0 then Inl ValueError else Inr (rnd (ln x))
      | PosInf \<Rightarrow> Inr PosInf
      | NegInf \<Rightarrow> Inl ValueError
      | NaN \<Rightarrow> Inr NaN)"

text \<open>The floats \<open>math.log(2)\<close> and \<open>math.log(2) ** 2\<close>.\<close>

definition double_log2 :: real where
  "double_log2 = 6243314768165359 / 9007199254740992"

definition double_log2_sq :: real where
  "double_log2_sq = 4327536028902087 / 9007199254740992"

text \<open>The partial sums of the exponential series in Horner form,
  \<open>exp_horner x k j = (\<Sum>m<j. x^m k! / (k+m)!)\<close>; they bound \<open>ln 2\<close> to the
  precision that fixes its rounding.\<close>

fun exp_horner :: "real \<Rightarrow> nat \<Rightarrow> nat \<Rightarrow> real" where
  "exp_horner x k 0 = 0"
| "exp_horner x k (Suc j) = 1 + x / real (Suc k) * exp_horner x (Suc k) j"

section \<open>bloom_filter.py\<close>

text \<open>
  The fields of a \<open>BloomFilter\<close> object.  \<open>expected_items\<close> is an \<open>int\<close> and
  \<open>false_positive_rate\<close> a \<open>float\<close>.
\<close>

record BloomFilter =
  expected_items :: int
  false_positive_rate :: pyfloat
  size_bf :: int
  num_hashes :: int
  bit_array :: "bool list"
  items_added :: int

text \<open>\<open>_calculate_optimal_size(n, p)\<close>:
  \<^verbatim>\<open>m = -(n * math.log(p)) / (math.log(2) ** 2); return int(math.ceil(m))\<close>.
  The operands are evaluated from left to right: \<open>math.log(p)\<close>, the
  conversion of \<open>n\<close> for the product, the negation, \<open>math.log(2) ** 2\<close>, the
  division, \<open>math.ceil\<close>.\<close>

definition calculate_optimal_size :: "int \<Rightarrow> pyfloat \<Rightarrow> error + int" where
  "calculate_optimal_size n p =
     (case math_log p of
        Inl e \<Rightarrow> Inl e
      | Inr lp \<Rightarrow>
     (case float_of_int n of
        Inl e \<Rightarrow> Inl e
      | Inr fn \<Rightarrow>
     (case math_log (Float 2) of
        Inl e \<Rightarrow> Inl e
      | Inr l2 \<Rightarrow>
     (case float_pow2 l2 of
        Inl e \<Rightarrow> Inl e
      | Inr sq \<Rightarrow>
     (case fdiv (fneg (fmul fn lp)) sq of
        Inl e \<Rightarrow> Inl e
      | Inr m \<Rightarrow> math_ceil m)))))"

text \<open>\<open>_calculate_optimal_hash_count(m, n)\<close>:
  \<^verbatim>\<open>k = (m / n) * math.log(2); return int(math.ceil(k))\<close>, with \<open>m\<close> and \<open>n\<close>
  integers.\<close>

definition calculate_optimal_hash_count :: "int \<Rightarrow> int \<Rightarrow> error + int" where
  "calculate_optimal_hash_count m n =
     (case int_truediv m n of
        Inl e \<Rightarrow> Inl e
      | Inr q \<Rightarrow>
          (case math_log (Float 2) of
             Inl e \<Rightarrow> Inl e
           | Inr l2 \<Rightarrow> math_ceil (fmul q l2)))"

text \<open>\<open>__init__\<close>; \<open>[False] * size\<close> is the empty list when \<open>size\<close> is not
  positive.  The three \<open>print\<close> calls write to the console only.\<close>

definition BloomFilter_init :: "int \<Rightarrow> pyfloat \<Rightarrow> error + BloomFilter" where
  "BloomFilter_init n p =
     (case calculate_optimal_size n p of
        Inl e \<Rightarrow> Inl e
      | Inr m \<Rightarrow>
          (case calculate_optimal_hash_count m n of
             Inl e \<Rightarrow> Inl e
           | Inr k \<Rightarrow>
               Inr \<lparr>expected_items = n, false_positive_rate = p, size_bf = m, num_hashes = k,
                    bit_array = replicate (nat m) False, items_added = 0\<rparr>))"

text \<open>The sizing formulas as the specification states them, on real numbers:
  \<open>m = ceil(-(n ln p) / (ln 2)^2)\<close> and \<open>k = ceil((m / n) ln 2)\<close>.\<close>

definition spec_size :: "int \<Rightarrow> real \<Rightarrow> int" where
  "spec_size n p = \<lceil>- (of_int n * ln p) / (ln 2) ^ 2\<rceil>"

definition spec_hash_count :: "int \<Rightarrow> int \<Rightarrow> int" where
  "spec_hash_count m n = \<lceil>(of_int m / of_int n) * ln (2::real)\<rceil>"

text \<open>The four mixing functions.  Each is a loop over the bytes or the
  characters of the key, then \<open>hash_val % self.size\<close>.\<close>

definition murmur_step :: "int \<Rightarrow> int \<Rightarrow> int" where
  "murmur_step h b =
     (let h1 = h XOR b;
          h2 = h1 * 0x5bd1e995;
          h3 = h2 AND 0xFFFFFFFF
      in h3 XOR drop_bit 15 h3)"

definition murmur_hash :: "BloomFilter \<Rightarrow> string \<Rightarrow> int \<Rightarrow> error + int" where
  "murmur_hash bf key seed = py_mod (foldl murmur_step seed (encode_utf8 key)) (size_bf bf)"

definition fnv_step :: "int \<Rightarrow> char \<Rightarrow> int" where
  "fnv_step h c = (let h1 = h XOR ord c in (h1 * 0x01000193) AND 0xFFFFFFFF)"

definition fnv_hash :: "BloomFilter \<Rightarrow> string \<Rightarrow> int \<Rightarrow> error + int" where
  "fnv_hash bf key seed =
     py_mod (foldl fnv_step ((0x811c9dc5 + seed) AND 0xFFFFFFFF) key) (size_bf bf)"

definition djb2_step :: "int \<Rightarrow> char \<Rightarrow> int" where
  "djb2_step h c = (let h1 = (push_bit 5 h + h) + ord c in h1 AND 0xFFFFFFFF)"

definition djb2_hash :: "BloomFilter \<Rightarrow> string \<Rightarrow> int \<Rightarrow> error + int" where
  "djb2_hash bf key seed = py_mod (foldl djb2_step (5381 + seed) key) (size_bf bf)"

definition sdbm_step :: "int \<Rightarrow> char \<Rightarrow> int" where
  "sdbm_step h c = (let h1 = ord c + push_bit 6 h + push_bit 16 h - h in h1 AND 0xFFFFFFFF)"

definition sdbm_hash :: "BloomFilter \<Rightarrow> string \<Rightarrow> int \<Rightarrow> error + int" where
  "sdbm_hash bf key seed = py_mod (foldl sdbm_step seed key) (size_bf bf)"

text \<open>\<open>hash_functions[func_idx](item_lower, seed)\<close> with
  \<open>func_idx = i % 4\<close> in 0 to 3.\<close>

definition hash_function :: "int \<Rightarrow> BloomFilter \<Rightarrow> string \<Rightarrow> int \<Rightarrow> error + int" where
  "hash_function func_idx =
     (if func_idx = 0 then murmur_hash
      else if func_idx = 1 then fnv_hash
      else if func_idx = 2 then djb2_hash
      else sdbm_hash)"

text \<open>The loop of \<open>_get_hash_values\<close> over \<open>range(self.num_hashes)\<close>; the first
  exception ends it.\<close>

fun hash_loop :: "BloomFilter \<Rightarrow> string \<Rightarrow> int list \<Rightarrow> error + int list" where
  "hash_loop bf item_lower [] = Inr []"
| "hash_loop bf item_lower (i # is) =
     (let func_idx = i mod 4; seed = i div 4
      in case hash_function func_idx bf item_lower seed of
           Inl e \<Rightarrow> Inl e
         | Inr hash_val \<Rightarrow>
             (case hash_loop bf item_lower is of
                Inl e \<Rightarrow> Inl e
              | Inr indices \<Rightarrow> Inr (hash_val # indices)))"

definition range_py :: "int \<Rightarrow> int list" where
  "range_py n = map int [0 ..< nat n]"

definition get_hash_values :: "BloomFilter \<Rightarrow> string \<Rightarrow> error + int list" where
  "get_hash_values bf item = hash_loop bf (strip (lower item)) (range_py (num_hashes bf))"

text \<open>The loop of \<open>add\<close>: \<open>self.bit_array[idx] = True\<close> for each index.  An
  \<open>IndexError\<close> leaves the bits already set in place, so the loop returns the
  array it reached together with the exception.\<close>

fun set_bits :: "bool list \<Rightarrow> int list \<Rightarrow> error option \<times> bool list" where
  "set_bits arr [] = (None, arr)"
| "set_bits arr (idx # idxs) =
     (case list_set arr idx True of
        Inl e \<Rightarrow> (Some e, arr)
      | Inr arr' \<Rightarrow> set_bits arr' idxs)"

text \<open>\<open>add(item)\<close> returns nothing; the model returns the exception, if any,
  and the filter after the call.\<close>

definition add :: "BloomFilter \<Rightarrow> pyval \<Rightarrow> error option \<times> BloomFilter" where
  "add bf item =
     (case item of
        PyStr s \<Rightarrow>
          if strip s = [] then (None, bf)
          else (case get_hash_values bf s of
                  Inl e \<Rightarrow> (Some e, bf)
                | Inr indices \<Rightarrow>
                    (case set_bits (bit_array bf) indices of
                       (Some e, arr) \<Rightarrow> (Some e, bf\<lparr>bit_array := arr\<rparr>)
                     | (None, arr) \<Rightarrow>
                         (None, bf\<lparr>bit_array := arr, items_added := items_added bf + 1\<rparr>)))
      | _ \<Rightarrow> (None, bf))"

text \<open>The loop of \<open>contains\<close>: the first cleared bit returns \<open>False\<close>.\<close>

fun all_bits_set :: "bool list \<Rightarrow> int list \<Rightarrow> error + bool" where
  "all_bits_set arr [] = Inr True"
| "all_bits_set arr (idx # idxs) =
     (case list_get arr idx of
        Inl e \<Rightarrow> Inl e
      | Inr b \<Rightarrow> if \<not> b then Inr False else all_bits_set arr idxs)"

text \<open>\<open>contains(item)\<close>: the value returned (or the exception) and the filter
  after the call.\<close>

definition contains :: "BloomFilter \<Rightarrow> pyval \<Rightarrow> (error + bool) \<times> BloomFilter" where
  "contains bf item =
     (case item of
        PyStr s \<Rightarrow>
          if strip s = [] then (Inr False, bf)
          else (case get_hash_values bf s of
                  Inl e \<Rightarrow> (Inl e, bf)
                | Inr indices \<Rightarrow> (all_bits_set (bit_array bf) indices, bf))
      | _ \<Rightarrow> (Inr False, bf))"

text \<open>\<open>clear()\<close>.\<close>

definition clear :: "BloomFilter \<Rightarrow> BloomFilter" where
  "clear bf = bf\<lparr>bit_array := replicate (nat (size_bf bf)) False, items_added := 0\<rparr>"

text \<open>The filter of \<open>BloomFilter(expected_items=1, false_positive_rate=0.5)\<close>.\<close>

definition bf_example :: BloomFilter where
  "bf_example = \<lparr>expected_items = 1, false_positive_rate = Float (1/2), size_bf = 2, num_hashes = 2,
                 bit_array = [False, False], items_added = 0\<rparr>"

text \<open>A sequence of \<open>add\<close> calls on one filter; a call that raises leaves the
  filter as it was when the exception was raised, and the next call goes on
  from there.\<close>

definition add_all :: "BloomFilter \<Rightarrow> pyval list \<Rightarrow> BloomFilter" where
  "add_all bf items = foldl (\<lambda>b item. snd (add b item)) bf items"

text \<open>Calls of the public methods, what a call gives back, and a sequence of
  calls on one filter.\<close>

datatype bf_op = Add pyval | Contains pyval | Clear

datatype bf_result = Nothing | Returned bool | Raised error

fun step :: "BloomFilter \<Rightarrow> bf_op \<Rightarrow> bf_result \<times> BloomFilter" where
  "step bf (Add item) =
     (case add bf item of (None, bf') \<Rightarrow> (Nothing, bf') | (Some e, bf') \<Rightarrow> (Raised e, bf'))"
| "step bf (Contains item) =
     (case contains bf item of (Inl e, bf') \<Rightarrow> (Raised e, bf') | (Inr b, bf') \<Rightarrow> (Returned b, bf'))"
| "step bf Clear = (Nothing, clear bf)"

fun run :: "BloomFilter \<Rightarrow> bf_op list \<Rightarrow> bf_result list \<times> BloomFilter" where
  "run bf [] = ([], bf)"
| "run bf (op # ops) =
     (case step bf op of (r, bf') \<Rightarrow> (case run bf' ops of (rs, bf'') \<Rightarrow> (r # rs, bf'')))"

section \<open>rbtree_core.py\<close>


text \<open>
  Nodes are objects that the methods mutate in place and compare by identity,
  so the tree is modelled with an explicit store: a node is an address, and the
  \<open>heap\<close> of a tree maps an address to the fields of the node there.
  \<open>parent\<close> is \<open>None\<close> or a node; \<open>left\<close> and \<open>right\<close> always hold a node
  once \<open>insert_domain\<close> has set them (the sentinel \<open>NIL\<close> for a missing child).
  The field \<open>last_updated\<close> is never read or written after construction and
  is left out.
\<close>

datatype Color = RED | BLACK

type_synonym addr = nat

record RBNode =
  domain :: string
  reputation_score :: int
  spam_reports :: int
  legitimate_reports :: int
  color :: Color
  left :: addr
  right :: addr
  parent :: "addr option"

text \<open>The fields of a \<open>RedBlackTree\<close>, with the store and the next unused
  address (\<open>RBNode(...)\<close> allocates there).\<close>

record RedBlackTree =
  heap :: "addr \<Rightarrow> RBNode"
  next_addr :: addr
  NIL :: addr
  root_rb :: addr
  size_rb :: int

text \<open>Assignments to one field of the node at an address:
  \<open>a.color = c\<close>, \<open>a.left = b\<close>, \<open>a.right = b\<close>, \<open>a.parent = p\<close>.\<close>

definition set_color :: "RedBlackTree \<Rightarrow> addr \<Rightarrow> Color \<Rightarrow> RedBlackTree" where
  "set_color t a c = t\<lparr>heap := (heap t)(a := (heap t a)\<lparr>color := c\<rparr>)\<rparr>"

definition set_left :: "RedBlackTree \<Rightarrow> addr \<Rightarrow> addr \<Rightarrow> RedBlackTree" where
  "set_left t a b = t\<lparr>heap := (heap t)(a := (heap t a)\<lparr>left := b\<rparr>)\<rparr>"

definition set_right :: "RedBlackTree \<Rightarrow> addr \<Rightarrow> addr \<Rightarrow> RedBlackTree" where
  "set_right t a b = t\<lparr>heap := (heap t)(a := (heap t a)\<lparr>right := b\<rparr>)\<rparr>"

definition set_parent :: "RedBlackTree \<Rightarrow> addr \<Rightarrow> addr option \<Rightarrow> RedBlackTree" where
  "set_parent t a p = t\<lparr>heap := (heap t)(a := (heap t a)\<lparr>parent := p\<rparr>)\<rparr>"

text \<open>\<open>__init__\<close>: the sentinel is the node at address 0, black, its own left
  and right child, without a parent; the tree is empty.\<close>

definition nil_node :: RBNode where
  "nil_node = \<lparr>domain = ''NIL'', reputation_score = 0, spam_reports = 0, legitimate_reports = 0,
     color = BLACK, left = 0, right = 0, parent = None\<rparr>"

definition RedBlackTree_init :: RedBlackTree where
  "RedBlackTree_init = \<lparr>heap = (\<lambda>_. nil_node), next_addr = 1, NIL = 0, root_rb = 0, size_rb = 0\<rparr>"

text \<open>\<open>_left_rotate(x)\<close> and \<open>_right_rotate(y)\<close>, one \<open>let\<close> for each
  assignment or conditional of the method, in its order.\<close>

definition left_rotate :: "RedBlackTree \<Rightarrow> addr \<Rightarrow> RedBlackTree" where
  "left_rotate t x =
     (let y = right (heap t x);
          t1 = set_right t x (left (heap t y));
          t2 = (if left (heap t1 y) \<noteq> NIL t1 then set_parent t1 (left (heap t1 y)) (Some x) else t1);
          t3 = set_parent t2 y (parent (heap t2 x));
          t4 = (case parent (heap t3 x) of
                  None \<Rightarrow> t3\<lparr>root_rb := y\<rparr>
                | Some xp \<Rightarrow> if x = left (heap t3 xp) then set_left t3 xp y else set_right t3 xp y);
          t5 = set_left t4 y x
      in set_parent t5 x (Some y))"

definition right_rotate :: "RedBlackTree \<Rightarrow> addr \<Rightarrow> RedBlackTree" where
  "right_rotate t y =
     (let x = left (heap t y);
          t1 = set_left t y (right (heap t x));
          t2 = (if right (heap t1 x) \<noteq> NIL t1 then set_parent t1 (right (heap t1 x)) (Some y) else t1);
          t3 = set_parent t2 x (parent (heap t2 y));
          t4 = (case parent (heap t3 y) of
                  None \<Rightarrow> t3\<lparr>root_rb := x\<rparr>
                | Some yp \<Rightarrow> if y = right (heap t3 yp) then set_right t3 yp x else set_left t3 yp x);
          t5 = set_right t4 x y
      in set_parent t5 y (Some x))"

text \<open>\<open>a.parent\<close> and \<open>a.parent.parent\<close> where an attribute of the result is
  taken next: on \<open>None\<close> that raises \<open>AttributeError\<close>.\<close>

definition parent_of :: "RedBlackTree \<Rightarrow> addr \<Rightarrow> error + addr" where
  "parent_of t a = (case parent (heap t a) of None \<Rightarrow> Inl AttributeError | Some p \<Rightarrow> Inr p)"

definition grandparent_of :: "RedBlackTree \<Rightarrow> addr \<Rightarrow> error + addr" where
  "grandparent_of t a = (case parent_of t a of Inl e \<Rightarrow> Inl e | Inr p \<Rightarrow> parent_of t p)"

text \<open>The condition of the loop of \<open>_insert_fixup\<close>,
  \<open>node.parent and node.parent.color == Color.RED\<close>.\<close>

definition fixup_cond :: "RedBlackTree \<Rightarrow> addr \<Rightarrow> bool" where
  "fixup_cond t node =
     (case parent (heap t node) of None \<Rightarrow> False | Some p \<Rightarrow> color (heap t p) = RED)"

text \<open>The last three statements of the two outer branches (case 3): the parent
  becomes black, the grandparent red, and the grandparent is rotated; every
  \<open>node.parent\<close> and \<open>node.parent.parent\<close> is read again, as in the code.\<close>

definition recolor_right_rotate :: "RedBlackTree \<Rightarrow> addr \<Rightarrow> error + RedBlackTree" where
  "recolor_right_rotate t node =
     (case parent_of t node of
        Inl e \<Rightarrow> Inl e
      | Inr p \<Rightarrow>
          let t1 = set_color t p BLACK in
          (case grandparent_of t1 node of
             Inl e \<Rightarrow> Inl e
           | Inr g \<Rightarrow>
               let t2 = set_color t1 g RED in
               (case grandparent_of t2 node of
                  Inl e \<Rightarrow> Inl e
                | Inr g' \<Rightarrow> Inr (right_rotate t2 g'))))"

definition recolor_left_rotate :: "RedBlackTree \<Rightarrow> addr \<Rightarrow> error + RedBlackTree" where
  "recolor_left_rotate t node =
     (case parent_of t node of
        Inl e \<Rightarrow> Inl e
      | Inr p \<Rightarrow>
          let t1 = set_color t p BLACK in
          (case grandparent_of t1 node of
             Inl e \<Rightarrow> Inl e
           | Inr g \<Rightarrow>
               let t2 = set_color t1 g RED in
               (case grandparent_of t2 node of
                  Inl e \<Rightarrow> Inl e
                | Inr g' \<Rightarrow> Inr (left_rotate t2 g'))))"

text \<open>One iteration of the loop of \<open>_insert_fixup\<close>: the tree and the node
  it continues with.\<close>

definition fixup_body :: "RedBlackTree \<Rightarrow> addr \<Rightarrow> error + RedBlackTree \<times> addr" where
  "fixup_body t node =
     (case parent_of t node of
        Inl e \<Rightarrow> Inl e
      | Inr p \<Rightarrow>
     (case parent_of t p of
        Inl e \<Rightarrow> Inl e
      | Inr g \<Rightarrow>
          if p = left (heap t g) then
            (let uncle = right (heap t g) in
             if color (heap t uncle) = RED then
               (let t1 = set_color t p BLACK;
                    t2 = set_color t1 uncle BLACK
                in case grandparent_of t2 node of
                     Inl e \<Rightarrow> Inl e
                   | Inr g1 \<Rightarrow>
                       let t3 = set_color t2 g1 RED in
                       (case grandparent_of t3 node of
                          Inl e \<Rightarrow> Inl e
                        | Inr g2 \<Rightarrow> Inr (t3, g2)))
             else
               (let (t1, node1) =
                      (if node = right (heap t p) then (left_rotate t p, p) else (t, node))
                in case recolor_right_rotate t1 node1 of
                     Inl e \<Rightarrow> Inl e
                   | Inr t2 \<Rightarrow> Inr (t2, node1)))
          else
            (let uncle = left (heap t g) in
             if color (heap t uncle) = RED then
               (let t1 = set_color t p BLACK;
                    t2 = set_color t1 uncle BLACK
                in case grandparent_of t2 node of
                     Inl e \<Rightarrow> Inl e
                   | Inr g1 \<Rightarrow>
                       let t3 = set_color t2 g1 RED in
                       (case grandparent_of t3 node of
                          Inl e \<Rightarrow> Inl e
                        | Inr g2 \<Rightarrow> Inr (t3, g2)))
             else
               (let (t1, node1) =
                      (if node = left (heap t p) then (right_rotate t p, p) else (t, node))
                in case recolor_left_rotate t1 node1 of
                     Inl e \<Rightarrow> Inl e
                   | Inr t2 \<Rightarrow> Inr (t2, node1)))))"

text \<open>The loop of \<open>_insert_fixup\<close>; \<open>None\<close> stands for a loop that does not
  end.  After the loop the root is coloured black.\<close>

partial_function (option) fixup_loop :: "RedBlackTree \<Rightarrow> addr \<Rightarrow> (error + RedBlackTree) option" where
  "fixup_loop t node =
     (if fixup_cond t node then
        (case fixup_body t node of
           Inl e \<Rightarrow> Some (Inl e)
         | Inr (t', node') \<Rightarrow> fixup_loop t' node')
      else Some (Inr t))"

definition insert_fixup :: "RedBlackTree \<Rightarrow> addr \<Rightarrow> (error + RedBlackTree) option" where
  "insert_fixup t node =
     (case fixup_loop t node of
        None \<Rightarrow> None
      | Some (Inl e) \<Rightarrow> Some (Inl e)
      | Some (Inr t') \<Rightarrow> Some (Inr (set_color t' (root_rb t') BLACK)))"

text \<open>The descent loop of \<open>insert_domain\<close>: it ends at a node with the domain
  or falls off the tree below \<open>parent\<close>.\<close>

datatype descent = Found addr | Fell_off "addr option"

partial_function (option) insert_loop :: "RedBlackTree \<Rightarrow> string \<Rightarrow> addr option \<Rightarrow> addr \<Rightarrow> descent option" where
  "insert_loop t d par current =
     (if current \<noteq> NIL t then
        (if d < domain (heap t current) then insert_loop t d (Some current) (left (heap t current))
         else if d > domain (heap t current) then insert_loop t d (Some current) (right (heap t current))
         else Some (Found current))
      else Some (Fell_off par))"

text \<open>\<open>RBNode(domain, reputation_score)\<close> followed by the assignments of the
  sentinel to \<open>left\<close> and \<open>right\<close> and of \<open>parent\<close>.\<close>

definition new_node :: "RedBlackTree \<Rightarrow> string \<Rightarrow> int \<Rightarrow> addr option \<Rightarrow> RedBlackTree" where
  "new_node t d score par =
     t\<lparr>heap := (heap t)(next_addr t :=
          \<lparr>domain = d, reputation_score = score, spam_reports = 0, legitimate_reports = 0,
           color = RED, left = NIL t, right = NIL t, parent = par\<rparr>),
       next_addr := next_addr t + 1\<rparr>"

text \<open>\<open>insert_domain(domain, reputation_score)\<close> returns a node.  The code
  creates the new node before the descent; when the domain is found that node
  is dropped without having been linked, so the model allocates it only when
  the descent falls off the tree.\<close>

definition insert_domain :: "RedBlackTree \<Rightarrow> string \<Rightarrow> int \<Rightarrow> (error + addr \<times> RedBlackTree) option" where
  "insert_domain t d score =
     (case insert_loop t d None (root_rb t) of
        None \<Rightarrow> None
      | Some (Found current) \<Rightarrow>
          Some (Inr (current, t\<lparr>heap := (heap t)(current := (heap t current)\<lparr>reputation_score := score\<rparr>)\<rparr>))
      | Some (Fell_off par) \<Rightarrow>
          (let n = next_addr t;
               t1 = new_node t d score par;
               t2 = (case par of
                       None \<Rightarrow> t1\<lparr>root_rb := n\<rparr>
                     | Some p \<Rightarrow> if d < domain (heap t1 p) then set_left t1 p n else set_right t1 p n);
               t3 = set_color t2 n RED;
               t4 = t3\<lparr>size_rb := size_rb t3 + 1\<rparr>
           in case insert_fixup t4 n of
                None \<Rightarrow> None
              | Some (Inl e) \<Rightarrow> Some (Inl e)
              | Some (Inr t5) \<Rightarrow> Some (Inr (n, t5))))"

text \<open>\<open>search_domain(domain)\<close>: the node found or \<open>None\<close>, and the tree, which
  no statement of the method assigns to.\<close>

partial_function (option) search_loop :: "RedBlackTree \<Rightarrow> string \<Rightarrow> addr \<Rightarrow> addr option option" where
  "search_loop t d current =
     (if current \<noteq> NIL t then
        (if d = domain (heap t current) then Some (Some current)
         else if d < domain (heap t current) then search_loop t d (left (heap t current))
         else search_loop t d (right (heap t current)))
      else Some None)"

definition search_domain :: "RedBlackTree \<Rightarrow> string \<Rightarrow> (addr option \<times> RedBlackTree) option" where
  "search_domain t d = map_option (\<lambda>r. (r, t)) (search_loop t d (root_rb t))"

text \<open>\<open>update_reputation_score\<close>, \<open>increment_spam_reports\<close> and
  \<open>increment_legitimate_reports\<close>; a node is always true in \<open>if node:\<close>.
  The two assignments of an increment are two updates of the store.\<close>

definition update_reputation_score ::
    "RedBlackTree \<Rightarrow> string \<Rightarrow> int \<Rightarrow> (bool \<times> RedBlackTree) option" where
  "update_reputation_score t d new_score =
     (case search_domain t d of
        None \<Rightarrow> None
      | Some (None, t') \<Rightarrow> Some (False, t')
      | Some (Some a, t') \<Rightarrow>
          Some (True, t'\<lparr>heap := (heap t')(a := (heap t' a)
                  \<lparr>reputation_score := max 0 (min 100 new_score)\<rparr>)\<rparr>))"

definition increment_spam_reports ::
    "RedBlackTree \<Rightarrow> string \<Rightarrow> int \<Rightarrow> (int option \<times> RedBlackTree) option" where
  "increment_spam_reports t d amount =
     (case search_domain t d of
        None \<Rightarrow> None
      | Some (None, t') \<Rightarrow> Some (None, t')
      | Some (Some a, t') \<Rightarrow>
          (let t1 = t'\<lparr>heap := (heap t')(a := (heap t' a)
                      \<lparr>spam_reports := spam_reports (heap t' a) + amount\<rparr>)\<rparr>;
               t2 = t1\<lparr>heap := (heap t1)(a := (heap t1 a)
                      \<lparr>reputation_score := max 0 (reputation_score (heap t1 a) - amount * 5)\<rparr>)\<rparr>
           in Some (Some (reputation_score (heap t2 a)), t2)))"

definition increment_legitimate_reports ::
    "RedBlackTree \<Rightarrow> string \<Rightarrow> int \<Rightarrow> (int option \<times> RedBlackTree) option" where
  "increment_legitimate_reports t d amount =
     (case search_domain t d of
        None \<Rightarrow> None
      | Some (None, t') \<Rightarrow> Some (None, t')
      | Some (Some a, t') \<Rightarrow>
          (let t1 = t'\<lparr>heap := (heap t')(a := (heap t' a)
                      \<lparr>legitimate_reports := legitimate_reports (heap t' a) + amount\<rparr>)\<rparr>;
               t2 = t1\<lparr>heap := (heap t1)(a := (heap t1 a)
                      \<lparr>reputation_score := min 100 (reputation_score (heap t1 a) + amount * 3)\<rparr>)\<rparr>
           in Some (Some (reputation_score (heap t2 a)), t2)))"

text \<open>A sequence of \<open>insert_domain\<close> calls.\<close>

fun inserts :: "RedBlackTree \<Rightarrow> (string \<times> int) list \<Rightarrow> (error + RedBlackTree) option" where
  "inserts t [] = Some (Inr t)"
| "inserts t ((d, s) # ops) =
     (case insert_domain t d s of
        None \<Rightarrow> None
      | Some (Inl e) \<Rightarrow> Some (Inl e)
      | Some (Inr (a, t')) \<Rightarrow> inserts t' ops)"

text \<open>The tree after \<open>insert_domain('a', 50)\<close> on an empty tree.\<close>

definition rb_example :: RedBlackTree where
  "rb_example =
     \<lparr>heap = (\<lambda>_. nil_node)(1 :=
        \<lparr>domain = ''a'', reputation_score = 50, spam_reports = 0, legitimate_reports = 0,
         color = BLACK, left = 0, right = 0, parent = None\<rparr>),
      next_addr = 2, NIL = 0, root_rb = 1, size_rb = 1\<rparr>"

section \<open>Properties of the Bloom filter\<close>

subsection \<open>Python list indexing and the two bit loops\<close>


lemma list_index_length: "list_index xs i = Some j \<Longrightarrow> j < length xs"
  by (auto simp: list_index_def Let_def split: if_splits)

lemma list_index_update [simp]: "list_index (xs[j := v]) i = list_index xs i"
  by (simp add: list_index_def)

lemma list_index_cong: "length ys = length xs \<Longrightarrow> list_index ys i = list_index xs i"
  by (simp add: list_index_def)

lemma set_bits_length: "length (snd (set_bits arr idxs)) = length arr"
  by (induction arr idxs rule: set_bits.induct) (auto simp: list_set_def split: option.splits)

lemma set_bits_mono: "j < length arr \<Longrightarrow> arr ! j \<Longrightarrow> snd (set_bits arr idxs) ! j"
proof (induction arr idxs rule: set_bits.induct)
  case (1 arr)
  then show ?case by simp
next
  case (2 arr idx idxs)
  show ?case
  proof (cases "list_index arr idx")
    case None
    with 2 show ?thesis by (simp add: list_set_def)
  next
    case (Some k)
    have "(arr[k := True]) ! j" using 2(2,3) by (cases "j = k") simp_all
    with 2 Some show ?thesis by (simp add: list_set_def)
  qed
qed

lemma set_bits_sets:
  "set_bits arr idxs = (None, arr') \<Longrightarrow> idx \<in> set idxs \<Longrightarrow> list_get arr' idx = Inr True"
proof (induction arr idxs rule: set_bits.induct)
  case (1 arr)
  then show ?case by simp
next
  case (2 arr i idxs)
  from 2(2) obtain k where k: "list_index arr i = Some k"
    by (auto simp: list_set_def split: option.splits)
  with 2(2) have rest: "set_bits (arr[k := True]) idxs = (None, arr')"
    by (simp add: list_set_def)
  show ?case
  proof (cases "idx \<in> set idxs")
    case True
    with 2(1) k rest show ?thesis by (simp add: list_set_def)
  next
    case False
    with 2(3) have "idx = i" by simp
    have len: "length arr' = length arr"
      using set_bits_length [of "arr[k := True]" idxs] rest by simp
    have kl: "k < length arr" using k by (rule list_index_length)
    have "snd (set_bits (arr[k := True]) idxs) ! k"
      by (rule set_bits_mono) (use kl in simp_all)
    with rest have "arr' ! k" by simp
    moreover have "list_index arr' i = Some k"
      using k list_index_cong [OF len] by simp
    ultimately show ?thesis using \<open>idx = i\<close> by (simp add: list_get_def)
  qed
qed

lemma all_bits_set_True:
  "(\<And>idx. idx \<in> set idxs \<Longrightarrow> list_get arr idx = Inr True) \<Longrightarrow> all_bits_set arr idxs = Inr True"
  by (induction idxs) auto

lemma hash_function_cong:
  "size_bf bf' = size_bf bf \<Longrightarrow> hash_function f bf' s seed = hash_function f bf s seed"
  by (simp add: hash_function_def murmur_hash_def fnv_hash_def djb2_hash_def sdbm_hash_def)

lemma hash_loop_cong:
  "size_bf bf' = size_bf bf \<Longrightarrow> hash_loop bf' s is = hash_loop bf s is"
  by (induction "is") (auto simp: hash_function_cong [of bf' bf] split: sum.splits)

lemma get_hash_values_cong:
  "size_bf bf' = size_bf bf \<Longrightarrow> num_hashes bf' = num_hashes bf \<Longrightarrow>
   get_hash_values bf' s = get_hash_values bf s"
  by (simp add: get_hash_values_def hash_loop_cong [of bf' bf])

lemma add_frame:
  "size_bf (snd (add bf item)) = size_bf bf"
  "num_hashes (snd (add bf item)) = num_hashes bf"
  "expected_items (snd (add bf item)) = expected_items bf"
  "false_positive_rate (snd (add bf item)) = false_positive_rate bf"
  by (auto simp: add_def split: pyval.splits sum.splits prod.splits option.splits)

lemma add_length: "length (bit_array (snd (add bf item))) = length (bit_array bf)"
proof -
  have "\<And>is e arr. set_bits (bit_array bf) is = (e, arr) \<Longrightarrow> length arr = length (bit_array bf)"
    using set_bits_length by (metis snd_conv)
  then show ?thesis
    by (auto simp: add_def split: pyval.splits sum.splits prod.splits option.splits)
qed

lemma add_mono:
  "j < length (bit_array bf) \<Longrightarrow> bit_array bf ! j \<Longrightarrow> bit_array (snd (add bf item)) ! j"
proof -
  assume a: "j < length (bit_array bf)" "bit_array bf ! j"
  have "\<And>is e arr. set_bits (bit_array bf) is = (e, arr) \<Longrightarrow> arr ! j"
    using set_bits_mono [OF a] by (metis snd_conv)
  with a show ?thesis
    by (auto simp: add_def split: pyval.splits sum.splits prod.splits option.splits)
qed

lemma add_all_frame:
  "size_bf (add_all bf items) = size_bf bf \<and> num_hashes (add_all bf items) = num_hashes bf \<and>
   length (bit_array (add_all bf items)) = length (bit_array bf) \<and>
   (\<forall>j < length (bit_array bf). bit_array bf ! j \<longrightarrow> bit_array (add_all bf items) ! j)"
proof (induction items arbitrary: bf)
  case Nil
  then show ?case by (simp add: add_all_def)
next
  case (Cons a items)
  have "add_all bf (a # items) = add_all (snd (add bf a)) items" by (simp add: add_all_def)
  with Cons [of "snd (add bf a)"] show ?case
    by (simp add: add_frame add_length add_mono)
qed

lemma list_get_mono:
  assumes "list_get arr idx = Inr True" "length arr' = length arr"
    "\<forall>j < length arr. arr ! j \<longrightarrow> arr' ! j"
  shows "list_get arr' idx = Inr True"
proof -
  from assms(1) obtain k where k: "list_index arr idx = Some k" "arr ! k"
    by (auto simp: list_get_def split: option.splits)
  then have "k < length arr" by (simp add: list_index_length)
  with k assms(3) have "arr' ! k" by simp
  with k list_index_cong [OF assms(2)] show ?thesis by (simp add: list_get_def)
qed


lemma strip_Nil_iff: "strip s = [] \<longleftrightarrow> (\<forall>c \<in> set s. isspace c)"
proof
  assume "strip s = []"
  then have all: "\<forall>x \<in> set (dropWhile isspace s). isspace x"
    by (simp add: strip_def dropWhile_eq_Nil_conv)
  have "dropWhile isspace s = []"
  proof (rule ccontr)
    assume ne: "dropWhile isspace s \<noteq> []"
    then have "\<not> isspace (hd (dropWhile isspace s))" by (rule hd_dropWhile)
    moreover have "hd (dropWhile isspace s) \<in> set (dropWhile isspace s)" using ne by simp
    ultimately show False using all by blast
  qed
  then show "\<forall>c \<in> set s. isspace c" by (simp add: dropWhile_eq_Nil_conv)
next
  assume "\<forall>c \<in> set s. isspace c"
  then show "strip s = []" by (auto simp: strip_def dest: set_dropWhileD)
qed

lemma ord_range: "0 \<le> ord c \<and> ord c < 256"
proof -
  have "0 \<le> (of_char c :: int) mod 256" by (rule pos_mod_sign) simp
  moreover have "(of_char c :: int) mod 256 < 256" by (rule pos_mod_bound) simp
  ultimately show ?thesis by (simp only: of_char_mod_256 ord_def)
qed

lemma ord_char_of: "0 \<le> n \<Longrightarrow> n < 256 \<Longrightarrow> ord (char_of n) = n"
  by (simp add: ord_def)

lemma isspace_lower_char: "isspace (lower_char c) = isspace c"
proof (cases "(65 \<le> ord c \<and> ord c \<le> 90) \<or> (192 \<le> ord c \<and> ord c \<le> 222 \<and> ord c \<noteq> 215)")
  case True
  then have "ord (lower_char c) = ord c + 32"
    by (auto simp: lower_char_def Let_def ord_char_of)
  with True show ?thesis by (auto simp: isspace_def Let_def)
next
  case False
  then show ?thesis by (auto simp: lower_char_def Let_def)
qed

lemma strip_lower_Nil: "strip (lower s) = [] \<longleftrightarrow> strip s = []"
  by (simp add: strip_Nil_iff lower_def isspace_lower_char)


subsection \<open>Bounds of the natural logarithm of 2\<close>

lemma exp_lower_sum:
  assumes "0 \<le> (x::real)"
  shows "(\<Sum>m<n. x ^ m / fact m) \<le> exp x"
proof -
  from Maclaurin_exp_le [of x n] obtain t where
    e: "exp x = (\<Sum>m<n. x ^ m / fact m) + exp t / fact n * x ^ n" by blast
  have "0 \<le> exp t / fact n * x ^ n" using assms by simp
  with e show ?thesis by linarith
qed

lemma exp_upper_sum:
  assumes "0 \<le> (x::real)" "x \<le> 1"
  shows "exp x \<le> (\<Sum>m<n. x ^ m / fact m) + 3 * x ^ n / fact n"
proof -
  from Maclaurin_exp_le [of x n] obtain t where t: "\<bar>t\<bar> \<le> \<bar>x\<bar>"
    and e: "exp x = (\<Sum>m<n. x ^ m / fact m) + exp t / fact n * x ^ n" by blast
  have "t \<le> 1" using t assms by linarith
  then have "exp t \<le> exp 1" by simp
  also have "\<dots> \<le> 3" by (rule exp_le)
  finally have "exp t \<le> 3" .
  then have "exp t * (x ^ n / fact n) \<le> 3 * (x ^ n / fact n)"
    by (rule mult_right_mono) (use assms in simp)
  with e show ?thesis by (simp add: field_simps)
qed

lemma exp_horner_sum: "exp_horner x k j = (\<Sum>m<j. x ^ m * fact k / fact (k + m))"
proof (induction j arbitrary: k)
  case 0
  then show ?case by simp
next
  case (Suc j)
  have t: "x ^ Suc m * fact k / fact (k + Suc m) =
           x / real (Suc k) * (x ^ m * fact (Suc k) / fact (Suc k + m))" for m
  proof -
    define G :: real where "G = fact (k + Suc m)"
    define c :: real where "c = real (Suc k)"
    define f :: real where "f = fact k"
    have 1: "(fact (Suc k) :: real) = c * f" by (simp add: c_def f_def)
    have 2: "(fact (Suc k + m) :: real) = G" by (simp add: G_def)
    have 3: "c \<noteq> 0" by (simp add: c_def)
    have "x ^ Suc m * f / G = x / c * (x ^ m * (c * f) / G)" using 3 by simp
    then show ?thesis
      unfolding 1 2 by (simp only: G_def c_def f_def)
  qed
  have "(\<Sum>m<Suc j. x ^ m * fact k / fact (k + m)) =
        1 + (\<Sum>m<j. x ^ Suc m * fact k / fact (k + Suc m))"
    by (subst sum.lessThan_Suc_shift) simp
  also have "(\<Sum>m<j. x ^ Suc m * fact k / fact (k + Suc m)) =
        (\<Sum>m<j. x / real (Suc k) * (x ^ m * fact (Suc k) / fact (Suc k + m)))"
    by (simp only: t)
  also have "\<dots> = x / real (Suc k) * (\<Sum>m<j. x ^ m * fact (Suc k) / fact (Suc k + m))"
    by (simp only: sum_distrib_left)
  finally show ?case by (simp only: exp_horner.simps Suc.IH [of "Suc k"])
qed

lemma exp_horner_0: "exp_horner x 0 n = (\<Sum>m<n. x ^ m / fact m)"
  by (simp add: exp_horner_sum)

lemma exp_horner_le:
  assumes "j' = Suc j" "k' = Suc k" "0 \<le> x" "exp_horner x k' j \<le> u"
    "1 + x / real k' * u \<le> u'"
  shows "exp_horner x k j' \<le> u'"
proof -
  have "x / real k' * exp_horner x k' j \<le> x / real k' * u"
    by (rule mult_left_mono) (use assms in simp_all)
  with assms show ?thesis by simp
qed

lemma exp_horner_ge:
  assumes "j' = Suc j" "k' = Suc k" "0 \<le> x" "exp_horner x k' j \<ge> u"
    "1 + x / real k' * u \<ge> u'"
  shows "exp_horner x k j' \<ge> u'"
proof -
  have "x / real k' * exp_horner x k' j \<ge> x / real k' * u"
    by (rule mult_left_mono) (use assms in simp_all)
  with assms show ?thesis by simp
qed

lemma ln2_lower: "6931471805599453 / 10 ^ 16 < ln (2::real)"
proof -
  let ?x = "6931471805599453 / 10000000000000000 :: real"
  have a18: "exp_horner ?x 18 0 \<le> 0" by simp
  have a17: "exp_horner ?x 17 1 \<le> 1"
    by (rule exp_horner_le [where j = 0 and k' = 18, OF _ _ _ a18]) simp_all
  have a16: "exp_horner ?x 16 2 \<le> 260193340890587430882353 / 250000000000000000000000"
    by (rule exp_horner_le [where j = 1 and k' = 17, OF _ _ _ a17]) simp_all
  have a15: "exp_horner ?x 15 3 \<le> 1045088070159695851145633 / 1000000000000000000000000"
    by (rule exp_horner_le [where j = 2 and k' = 16, OF _ _ _ a16]) simp_all
  have a14: "exp_horner ?x 14 4 \<le> 1048293323284535165456753 / 1000000000000000000000000"
    by (rule exp_horner_le [where j = 3 and k' = 15, OF _ _ _ a15]) simp_all
  have a13: "exp_horner ?x 13 5 \<le> 1051901540102463629067267 / 1000000000000000000000000"
    by (rule exp_horner_le [where j = 4 and k' = 14, OF _ _ _ a14]) simp_all
  have a12: "exp_horner ?x 12 6 \<le> 1056086352826822069152591 / 1000000000000000000000000"
    by (rule exp_horner_le [where j = 5 and k' = 13, OF _ _ _ a13]) simp_all
  have a11: "exp_horner ?x 11 7 \<le> 1061001939824145611271201 / 1000000000000000000000000"
    by (rule exp_horner_le [where j = 6 and k' = 12, OF _ _ _ a12]) simp_all
  have a10: "exp_horner ?x 10 8 \<le> 133357164808610673589289 / 125000000000000000000000"
    by (rule exp_horner_le [where j = 7 and k' = 11, OF _ _ _ a11]) simp_all
  have a9: "exp_horner ?x 9 9 \<le> 1073948914235645156617779 / 1000000000000000000000000"
    by (rule exp_horner_le [where j = 8 and k' = 10, OF _ _ _ a10]) simp_all
  have a8: "exp_horner ?x 8 10 \<le> 1082711629107539104750737 / 1000000000000000000000000"
    by (rule exp_horner_le [where j = 9 and k' = 9, OF _ _ _ a9]) simp_all
  have a7: "exp_horner ?x 7 11 \<le> 273452453533604872974119 / 250000000000000000000000"
    by (rule exp_horner_le [where j = 10 and k' = 8, OF _ _ _ a8]) simp_all
  have a6: "exp_horner ?x 6 12 \<le> 554155084909719334018823 / 500000000000000000000000"
    by (rule exp_horner_le [where j = 11 and k' = 7, OF _ _ _ a7]) simp_all
  have a5: "exp_horner ?x 5 13 \<le> 45121480462641720616439 / 40000000000000000000000"
    by (rule exp_horner_le [where j = 12 and k' = 6, OF _ _ _ a6]) simp_all
  have a4: "exp_horner ?x 4 14 \<le> 578189567413426912274327 / 500000000000000000000000"
    by (rule exp_horner_le [where j = 13 and k' = 5, OF _ _ _ a5]) simp_all
  have a3: "exp_horner ?x 3 15 \<le> 60019261712044782229031 / 50000000000000000000000"
    by (rule exp_horner_le [where j = 14 and k' = 4, OF _ _ _ a4]) simp_all
  have a2: "exp_horner ?x 2 16 \<le> 159668485029161096950747 / 125000000000000000000000"
    by (rule exp_horner_le [where j = 15 and k' = 3, OF _ _ _ a3]) simp_all
  have a1: "exp_horner ?x 1 17 \<le> 288539008177792679893853 / 200000000000000000000000"
    by (rule exp_horner_le [where j = 16 and k' = 2, OF _ _ _ a2]) simp_all
  have a0: "exp_horner ?x 0 18 \<le> 999999999999999990472209 / 500000000000000000000000"
    by (rule exp_horner_le [where j = 17 and k' = 1, OF _ _ _ a1]) simp_all
  have "?x ^ 18 \<le> (7 / 10) ^ 18" by (rule power_mono) simp_all
  then have r: "3 * ?x ^ 18 / fact 18 \<le> 3 * (7 / 10) ^ 18 / fact 18"
    by (simp add: divide_right_mono)
  have r2: "3 * (7 / 10) ^ 18 / fact 18 \<le> (1 / 1000000000000000000 :: real)"
    by (simp add: fact_numeral power_divide)
  have "exp ?x \<le> (\<Sum>m<18. ?x ^ m / fact m) + 3 * ?x ^ 18 / fact 18"
    by (rule exp_upper_sum) simp_all
  then have e: "exp ?x \<le> exp_horner ?x 0 18 + 3 * ?x ^ 18 / fact 18"
    by (simp only: exp_horner_0)
  have "exp ?x < 2" using e a0 r r2 by linarith
  then have "ln (exp ?x) < ln 2" by (subst ln_less_cancel_iff) simp_all
  then show ?thesis by simp
qed

lemma ln2_upper: "ln (2::real) < 69314718055994532 / 10 ^ 17"
proof -
  let ?x = "69314718055994532 / 100000000000000000 :: real"
  have b18: "exp_horner ?x 18 0 \<ge> 0" by simp
  have b17: "exp_horner ?x 17 1 \<ge> 1"
    by (rule exp_horner_ge [where j = 0 and k' = 18, OF _ _ _ b18]) simp_all
  have b16: "exp_horner ?x 16 2 \<ge> 520386681781174862352941 / 500000000000000000000000"
    by (rule exp_horner_ge [where j = 1 and k' = 17, OF _ _ _ b17]) simp_all
  have b15: "exp_horner ?x 15 3 \<ge> 209017614031939170499513 / 200000000000000000000000"
    by (rule exp_horner_ge [where j = 2 and k' = 16, OF _ _ _ b16]) simp_all
  have b14: "exp_horner ?x 14 4 \<ge> 41931732931381406676507 / 40000000000000000000000"
    by (rule exp_horner_ge [where j = 3 and k' = 15, OF _ _ _ b15]) simp_all
  have b13: "exp_horner ?x 13 5 \<ge> 65743846256403976914807 / 62500000000000000000000"
    by (rule exp_horner_ge [where j = 4 and k' = 14, OF _ _ _ b14]) simp_all
  have b12: "exp_horner ?x 12 6 \<ge> 16501349262919094857103 / 15625000000000000000000"
    by (rule exp_horner_ge [where j = 5 and k' = 13, OF _ _ _ b13]) simp_all
  have b11: "exp_horner ?x 11 7 \<ge> 212200387964829122625931 / 200000000000000000000000"
    by (rule exp_horner_ge [where j = 6 and k' = 12, OF _ _ _ b12]) simp_all
  have b10: "exp_horner ?x 10 8 \<ge> 1066857318468885390760513 / 1000000000000000000000000"
    by (rule exp_horner_ge [where j = 7 and k' = 11, OF _ _ _ b11]) simp_all
  have b9: "exp_horner ?x 9 9 \<ge> 268487228558911289723331 / 250000000000000000000000"
    by (rule exp_horner_ge [where j = 8 and k' = 10, OF _ _ _ b10]) simp_all
  have b8: "exp_horner ?x 8 10 \<ge> 1082711629107539107312543 / 1000000000000000000000000"
    by (rule exp_horner_ge [where j = 9 and k' = 9, OF _ _ _ b9]) simp_all
  have b7: "exp_horner ?x 7 11 \<ge> 546904907067209747412609 / 500000000000000000000000"
    by (rule exp_horner_ge [where j = 10 and k' = 8, OF _ _ _ b8]) simp_all
  have b6: "exp_horner ?x 6 12 \<ge> 1108310169819438671452823 / 1000000000000000000000000"
    by (rule exp_horner_ge [where j = 11 and k' = 7, OF _ _ _ b7]) simp_all
  have b5: "exp_horner ?x 5 13 \<ge> 564018505783021509749939 / 500000000000000000000000"
    by (rule exp_horner_ge [where j = 12 and k' = 6, OF _ _ _ b6]) simp_all
  have b4: "exp_horner ?x 4 14 \<ge> 1156379134826853829627643 / 1000000000000000000000000"
    by (rule exp_horner_ge [where j = 13 and k' = 5, OF _ _ _ b5]) simp_all
  have b3: "exp_horner ?x 3 15 \<ge> 300096308560223912810659 / 250000000000000000000000"
    by (rule exp_horner_ge [where j = 14 and k' = 4, OF _ _ _ b4]) simp_all
  have b2: "exp_horner ?x 2 16 \<ge> 319336970058322196286949 / 250000000000000000000000"
    by (rule exp_horner_ge [where j = 15 and k' = 3, OF _ _ _ b3]) simp_all
  have b1: "exp_horner ?x 1 17 \<ge> 288539008177792683109937 / 200000000000000000000000"
    by (rule exp_horner_ge [where j = 16 and k' = 2, OF _ _ _ b2]) simp_all
  have b0: "exp_horner ?x 0 18 \<ge> 62500000000000000654513 / 31250000000000000000000"
    by (rule exp_horner_ge [where j = 17 and k' = 1, OF _ _ _ b1]) simp_all
  have "2 < exp_horner ?x 0 18" using b0 by simp
  also have "\<dots> = (\<Sum>m<18. ?x ^ m / fact m)" by (simp only: exp_horner_0)
  also have "\<dots> \<le> exp ?x" by (rule exp_lower_sum) simp
  finally have "2 < exp ?x" .
  then have "ln 2 < ln (exp ?x)" by (subst ln_less_cancel_iff) simp_all
  then show ?thesis by simp
qed

subsection \<open>Rounding to binary64\<close>

lemma round_even_unique:
  assumes "of_int k - 1/2 < x" "x < of_int k + 1/2"
  shows "round_even x = k"
proof (cases "of_int k \<le> x")
  case True
  have "\<lfloor>x\<rfloor> = k"
  proof (rule floor_unique)
    show "of_int k \<le> x" by (rule True)
    show "x < of_int k + 1" using assms(2) by linarith
  qed
  then show ?thesis using assms by (simp add: round_even_def Let_def)
next
  case False
  have a: "(of_int (k - 1) :: real) = of_int k - 1" by simp
  have f: "\<lfloor>x\<rfloor> = k - 1"
  proof (rule floor_unique)
    show "of_int (k - 1) \<le> x" unfolding a using assms(1) by linarith
    show "x < of_int (k - 1) + 1" unfolding a using False by linarith
  qed
  have "\<not> x - of_int (k - 1) < 1/2" unfolding a using assms(1) by linarith
  moreover have "1/2 < x - of_int (k - 1)" unfolding a using assms(1) by linarith
  ultimately show ?thesis unfolding round_even_def Let_def f by simp
qed

lemma fexp_eq:
  assumes "2 powi e \<le> \<bar>x\<bar>" "\<bar>x\<bar> < 2 powi (e + 1)" "- 1022 \<le> e"
  shows "fexp x = e - 52"
proof -
  have pos: "0 < \<bar>x\<bar>"
  proof -
    have "(0::real) < 2 powi e" by simp
    with assms(1) show ?thesis by linarith
  qed
  have p1: "(2::real) powr real_of_int e = 2 powi e" by (rule powr_real_of_int') simp_all
  have p2: "(2::real) powr real_of_int (e + 1) = 2 powi (e + 1)"
    by (rule powr_real_of_int') simp_all
  have "(\<lfloor>log 2 \<bar>x\<bar>\<rfloor> = e) =
        (2 powr real_of_int e \<le> \<bar>x\<bar> \<and> \<bar>x\<bar> < 2 powr real_of_int (e + 1))"
    by (rule floor_log_eq_powr_iff) (use pos in simp_all)
  then have "\<lfloor>log 2 \<bar>x\<bar>\<rfloor> = e" unfolding p1 p2 using assms(1,2) by blast
  with assms(3) show ?thesis by (simp add: fexp_def)
qed

lemma rnd_unique:
  assumes "2 powi e \<le> \<bar>x\<bar>" "\<bar>x\<bar> < 2 powi (e + 1)" "- 1022 \<le> e" "e \<le> 1022"
    "of_int k - 1/2 < x / 2 powi (e - 52)" "x / 2 powi (e - 52) < of_int k + 1/2"
    "y = of_int k * 2 powi (e - 52)"
  shows "rnd x = Float y"
proof -
  have pos: "0 < \<bar>x\<bar>"
  proof -
    have "(0::real) < 2 powi e" by simp
    with assms(1) show ?thesis by linarith
  qed
  have "(2::real) powi (e + 1) \<le> 2 powi 1023"
    by (rule power_int_increasing) (use assms(4) in simp_all)
  also have "\<dots> < 2 ^ 1024 - 2 ^ 970" by simp
  finally have small: "\<not> 2 ^ 1024 - 2 ^ 970 \<le> \<bar>x\<bar>" using assms(2) by linarith
  have f: "fexp x = e - 52" by (rule fexp_eq) (rule assms)+
  have r: "round_even (x / 2 powi (e - 52)) = k" by (rule round_even_unique) (rule assms)+
  show ?thesis using pos small by (simp add: rnd_def f r assms(7))
qed

lemma rnd_0 [simp]: "rnd 0 = Float 0"
  by (simp add: rnd_def)

lemma round_even_minus: "round_even (- z) = - round_even z"
proof (cases "z = of_int \<lfloor>z\<rfloor>")
  case True
  have "\<lfloor>- of_int \<lfloor>z\<rfloor> :: real\<rfloor> = - \<lfloor>z\<rfloor>" by (simp del: of_int_floor_cancel)
  with True have "\<lfloor>- z\<rfloor> = - \<lfloor>z\<rfloor>" by simp
  with True show ?thesis by (simp add: round_even_def Let_def)
next
  case False
  have lt: "of_int \<lfloor>z\<rfloor> < z" using False of_int_floor_le [of z] by linarith
  have gt: "z < of_int \<lfloor>z\<rfloor> + 1" by linarith
  have f: "\<lfloor>- z\<rfloor> = - \<lfloor>z\<rfloor> - 1"
  proof (rule floor_unique)
    have a: "(of_int (- \<lfloor>z\<rfloor> - 1) :: real) = - of_int \<lfloor>z\<rfloor> - 1" by simp
    show "of_int (- \<lfloor>z\<rfloor> - 1) \<le> - z" unfolding a using gt by linarith
    show "- z < of_int (- \<lfloor>z\<rfloor> - 1) + 1" unfolding a using lt by linarith
  qed
  define d where "d = z - of_int \<lfloor>z\<rfloor>"
  have d: "0 < d" "d < 1" unfolding d_def using lt gt by linarith+
  have e1: "- z - of_int (- \<lfloor>z\<rfloor> - 1) = 1 - d" by (simp add: d_def)
  show ?thesis
    unfolding round_even_def Let_def f e1 d_def [symmetric] using d by auto
qed

lemma rnd_minus: "rnd (- x) = fneg (rnd x)"
proof -
  have "fexp (- x) = fexp x" by (simp add: fexp_def)
  then show ?thesis by (auto simp: rnd_def round_even_minus)
qed

subsection \<open>The constructor on concrete arguments\<close>

lemma double_log2_sq_neq0: "double_log2_sq \<noteq> 0"
  by (simp add: double_log2_sq_def)

lemma rnd_ln2: "rnd (ln 2) = Float double_log2"
proof (rule rnd_unique [where e = "- 1" and k = 6243314768165359])
  note b = ln2_lower ln2_upper
  have a: "\<bar>ln (2::real)\<bar> = ln 2" using b by simp
  show "2 powi - 1 \<le> \<bar>ln (2::real)\<bar>" unfolding a using b by simp
  show "\<bar>ln (2::real)\<bar> < 2 powi (- 1 + 1)" unfolding a using b by simp
  show "real_of_int 6243314768165359 - 1 / 2 < ln 2 / 2 powi (- 1 - 52)" using b by simp
  show "ln 2 / 2 powi (- 1 - 52) < real_of_int 6243314768165359 + 1 / 2" using b by simp
  show "double_log2 = real_of_int 6243314768165359 * 2 powi (- 1 - 52)"
    by (simp add: double_log2_def)
qed simp_all

lemma math_log_2: "math_log (Float 2) = Inr (Float double_log2)"
  by (simp add: math_log_def rnd_ln2)

lemma math_log_half: "math_log (Float (1/2)) = Inr (Float (- double_log2))"
proof -
  have "ln (1/2 :: real) = - ln 2" by (simp add: ln_div)
  then have "rnd (ln (1/2)) = Float (- double_log2)" by (simp add: rnd_minus rnd_ln2)
  then show ?thesis by (simp add: math_log_def)
qed


lemma float_pow2_log2: "float_pow2 (Float double_log2) = Inr (Float double_log2_sq)"
proof -
  have "rnd (double_log2 * double_log2) = Float double_log2_sq"
    by (rule rnd_unique [where e = "- 2" and k = 8655072057804174])
       (simp_all add: double_log2_def double_log2_sq_def)
  then show ?thesis by (simp add: float_pow2_def)
qed

lemma calculate_optimal_size_eq:
  assumes "math_log p = Inr lp" "float_of_int n = Inr fn"
  shows "calculate_optimal_size n p =
     (case fdiv (fneg (fmul fn lp)) (Float double_log2_sq) of Inl e \<Rightarrow> Inl e | Inr m \<Rightarrow> math_ceil m)"
  by (simp add: calculate_optimal_size_def assms math_log_2 float_pow2_log2)

lemma calculate_optimal_hash_count_eq:
  "calculate_optimal_hash_count m n =
     (case int_truediv m n of Inl e \<Rightarrow> Inl e | Inr q \<Rightarrow> math_ceil (fmul q (Float double_log2)))"
  by (cases "int_truediv m n") (simp_all add: calculate_optimal_hash_count_def math_log_2)

lemma float_of_int_1: "float_of_int 1 = Inr (Float 1)"
proof -
  have "rnd 1 = Float 1"
    by (rule rnd_unique [where e = 0 and k = 4503599627370496]) simp_all
  then show ?thesis by (simp add: float_of_int_def)
qed

lemma calculate_optimal_size_example: "calculate_optimal_size 1 (Float (1/2)) = Inr 2"
proof -
  have 2: "fmul (Float 1) (Float (- double_log2)) = Float (- double_log2)"
    unfolding fmul.simps
    by (rule rnd_unique [where e = "- 1" and k = "- 6243314768165359"])
       (simp_all add: double_log2_def)
  have 3: "fneg (Float (- double_log2)) = Float double_log2" by simp
  have "rnd (double_log2 / double_log2_sq) = Float (3248660424278399 / 2251799813685248)"
    by (rule rnd_unique [where e = 0 and k = 6497320848556798])
       (simp_all add: double_log2_def double_log2_sq_def)
  then have 4: "fdiv (Float double_log2) (Float double_log2_sq) =
      Inr (Float (3248660424278399 / 2251799813685248))"
    using double_log2_sq_neq0 by simp
  have 5: "math_ceil (Float (3248660424278399 / 2251799813685248)) = Inr 2"
    by (simp add: math_ceil_def)
  show ?thesis
    by (simp only: calculate_optimal_size_eq [OF math_log_half float_of_int_1] 2 3 4 5 sum.case)
qed

lemma calculate_optimal_hash_count_example: "calculate_optimal_hash_count 2 1 = Inr 2"
proof -
  have "rnd (2 / 1) = Float 2"
    by (rule rnd_unique [where e = 1 and k = 4503599627370496]) simp_all
  then have 1: "int_truediv 2 1 = Inr (Float 2)" by (simp add: int_truediv_def)
  have 2: "fmul (Float 2) (Float double_log2) = Float (6243314768165359 / 4503599627370496)"
    unfolding fmul.simps
    by (rule rnd_unique [where e = 0 and k = 6243314768165359])
       (simp_all add: double_log2_def)
  have 3: "math_ceil (Float (6243314768165359 / 4503599627370496)) = Inr 2"
    by (simp add: math_ceil_def)
  show ?thesis
    by (simp only: calculate_optimal_hash_count_eq 1 2 3 sum.case)
qed

lemma BloomFilter_init_example: "BloomFilter_init 1 (Float (1/2)) = Inr bf_example"
  by (simp add: BloomFilter_init_def calculate_optimal_size_example
      calculate_optimal_hash_count_example bf_example_def numeral_2_eq_2)

lemma add_example: "fst (add bf_example (PyStr ''ab'')) = None"
  by (simp add: add_def bf_example_def strip_def isspace_def ord_def get_hash_values_def
      range_py_def lower_def lower_char_def hash_function_def murmur_hash_def fnv_hash_def
      py_mod_def encode_utf8_def murmur_step_def fnv_step_def list_set_def list_index_def upt_rec)




lemma fmul_NaN [simp]: "fmul a NaN = NaN"
  by (cases a) simp_all

lemma fdiv_sq:
  "fdiv a (Float double_log2_sq) =
     Inr (case a of Float x \<Rightarrow> rnd (x / double_log2_sq) | PosInf \<Rightarrow> PosInf | NegInf \<Rightarrow> NegInf
          | NaN \<Rightarrow> NaN)"
  by (cases a) (simp_all add: double_log2_sq_neq0 finf_def, simp_all add: double_log2_sq_def)







lemma float_of_int_items: "float_of_int 49180508 = Inr (Float 49180508)"
proof -
  have "rnd 49180508 = Float 49180508"
    by (rule rnd_unique [where e = 25 and k = 6600896045645824]) simp_all
  then show ?thesis by (simp add: float_of_int_def)
qed

lemma size_at_half: "calculate_optimal_size 49180508 (Float (1/2)) = Inr 70952475"
proof -
  have 2: "fmul (Float 49180508) (Float (- double_log2)) = Float (- (4575392483208695 / 134217728))"
    unfolding fmul.simps
    by (rule rnd_unique [where e = 25 and k = "- 4575392483208695"])
       (simp_all add: double_log2_def)
  have 3: "fneg (Float (- (4575392483208695 / 134217728))) = Float (4575392483208695 / 134217728)"
    by simp
  have "rnd (4575392483208695 / 134217728 / double_log2_sq) = Float 70952475"
    by (rule rnd_unique [where e = 26 and k = 4761539995238400])
       (simp_all add: double_log2_sq_def)
  then have 4: "fdiv (Float (4575392483208695 / 134217728)) (Float double_log2_sq) =
      Inr (Float 70952475)"
    using double_log2_sq_neq0 by simp
  have 5: "math_ceil (Float 70952475) = Inr 70952475" by (simp add: math_ceil_def)
  show ?thesis
    by (simp only: calculate_optimal_size_eq [OF math_log_half float_of_int_items] 2 3 4 5 sum.case)
qed

lemma hash_count_at_half: "calculate_optimal_hash_count 70952475 49180508 = Inr 1"
proof -
  have "rnd (70952475 / 49180508) = Float (6497320848556799 / 4503599627370496)"
    by (rule rnd_unique [where e = 0 and k = 6497320848556799]) simp_all
  then have 1: "int_truediv 70952475 49180508 = Inr (Float (6497320848556799 / 4503599627370496))"
    by (simp add: int_truediv_def)
  have 2: "fmul (Float (6497320848556799 / 4503599627370496)) (Float double_log2) = Float 1"
    unfolding fmul.simps
    by (rule rnd_unique [where e = 0 and k = 4503599627370496])
       (simp_all add: double_log2_def)
  have 3: "math_ceil (Float 1) = Inr 1" by (simp add: math_ceil_def)
  show ?thesis by (simp only: calculate_optimal_hash_count_eq 1 2 3 sum.case)
qed

lemma spec_at_half:
  shows "spec_size 49180508 (1/2) = 70952475" and "spec_hash_count 70952475 49180508 = 2"
proof -
  note b = ln2_lower ln2_upper
  have pos: "0 < ln (2::real)" by simp
  have l: "ln (1/2 :: real) = - ln 2" by (simp add: ln_div)
  have e: "49180508 * ln (2::real) / (ln 2)^2 = 49180508 / ln 2"
    using pos by (simp add: power2_eq_square)
  have "\<lceil>49180508 / ln (2::real)\<rceil> = 70952475"
  proof (rule ceiling_unique)
    have "49180508 \<le> 70952475 * ln (2::real)" using b by simp
    then show "49180508 / ln (2::real) \<le> of_int 70952475" using pos by (simp add: field_simps)
    have "70952474 * ln (2::real) < 49180508" using b by simp
    then show "of_int 70952475 - 1 < 49180508 / ln (2::real)" using pos by (simp add: field_simps)
  qed
  then show "spec_size 49180508 (1/2) = 70952475" by (simp add: spec_size_def l e)
  have "\<lceil>70952475 / 49180508 * ln (2::real)\<rceil> = 2"
  proof (rule ceiling_unique)
    show "of_int 2 - 1 < 70952475 / 49180508 * ln (2::real)" using b by simp
    show "70952475 / 49180508 * ln (2::real) \<le> of_int 2" using b by simp
  qed
  then show "spec_hash_count 70952475 49180508 = 2" by (simp add: spec_hash_count_def)
qed

subsection \<open>No false negatives\<close>

text \<open>
  Claim C2, as amended.  For every string \<open>s\<close> that is not empty after
  \<open>strip()\<close> and every filter on which \<open>add(s)\<close> returns without raising: after
  that call and any further sequence of \<open>add\<close> calls (of any arguments, raising
  or not, with no \<open>clear\<close>), \<open>contains(s)\<close> returns \<open>True\<close> and leaves the filter
  as it is.
\<close>

theorem no_false_negatives:
  assumes "strip s \<noteq> []" and "add bf (PyStr s) = (None, bf1)"
  shows "contains (add_all bf1 items) (PyStr s) = (Inr True, add_all bf1 items)"
proof -
  from assms obtain indices where
    ind: "get_hash_values bf s = Inr indices" and
    sb: "set_bits (bit_array bf) indices = (None, bit_array bf1)" and
    fr: "size_bf bf1 = size_bf bf" "num_hashes bf1 = num_hashes bf"
    by (auto simp: add_def split: sum.splits prod.splits option.splits)
  let ?bf2 = "add_all bf1 items"
  note fa = add_all_frame [of bf1 items]
  have fr2: "size_bf ?bf2 = size_bf bf" "num_hashes ?bf2 = num_hashes bf"
    using fa fr by simp_all
  have ind2: "get_hash_values ?bf2 s = Inr indices"
    using get_hash_values_cong [OF fr2] ind by simp
  have len: "length (bit_array ?bf2) = length (bit_array bf1)" using fa by blast
  have mono: "\<forall>j < length (bit_array bf1). bit_array bf1 ! j \<longrightarrow> bit_array ?bf2 ! j"
    using fa by blast
  have "list_get (bit_array ?bf2) idx = Inr True" if "idx \<in> set indices" for idx
    using set_bits_sets [OF sb that] len mono by (rule list_get_mono)
  then have "all_bits_set (bit_array ?bf2) indices = Inr True"
    by (rule all_bits_set_True)
  with ind2 assms(1) show ?thesis by (simp add: contains_def)
qed


theorem no_false_negatives_witness:
  "strip ''ab'' \<noteq> [] \<and> fst (add bf_example (PyStr ''ab'')) = None \<and>
   fst (contains (add_all (snd (add bf_example (PyStr ''ab''))) [PyStr ''cd'', PyNone])
          (PyStr ''ab'')) = Inr True"
proof -
  have s: "strip ''ab'' \<noteq> []" by (simp add: strip_def isspace_def ord_def)
  have "add bf_example (PyStr ''ab'') = (None, snd (add bf_example (PyStr ''ab'')))"
    using add_example by (metis prod.collapse)
  from no_false_negatives [OF s this, of "[PyStr ''cd'', PyNone]"] s add_example
  show ?thesis by simp
qed

text \<open>
  Claim C2 as stated fails on a string of white space: \<open>' '\<close> is a non-empty
  string, \<open>add(' ')\<close> returns without raising and changes nothing, and
  \<open>contains(' ')\<close> then returns \<open>False\<close>.
\<close>

theorem blank_item_counterexample:
  "'' '' \<noteq> [] \<and> add bf_example (PyStr '' '') = (None, bf_example) \<and>
   fst (contains (snd (add bf_example (PyStr '' ''))) (PyStr '' '')) = Inr False"
  by (simp add: add_def contains_def strip_def isspace_def ord_def)

subsection \<open>Construction\<close>




text \<open>
  Claim C7, as amended.  A filter that the constructor returns has the size
  \<open>ceil(x)\<close>, where \<open>x\<close> is the float that the expression
  \<open>-(n * math.log(p)) / (math.log(2) ** 2)\<close> gives in binary64 arithmetic (each
  operation rounded, \<open>math.log(2) ** 2\<close> being the float \<open>double_log2_sq\<close>), and
  \<open>ceil(y)\<close> hash functions, where \<open>y\<close> is the float that \<open>(m / n) * math.log(2)\<close>
  gives for that size \<open>m\<close>.  Its bit array consists of exactly \<open>m\<close> cleared bits
  (none when \<open>m\<close> is negative), its counter is 0, and the two arguments are
  stored unchanged.
\<close>

theorem init_computes:
  assumes "BloomFilter_init n p = Inr bf"
  shows "\<exists>lp fn x q y.
           math_log p = Inr lp \<and> float_of_int n = Inr fn \<and>
           fdiv (fneg (fmul fn lp)) (Float double_log2_sq) = Inr (Float x) \<and>
           size_bf bf = \<lceil>x\<rceil> \<and>
           int_truediv (size_bf bf) n = Inr q \<and> fmul q (Float double_log2) = Float y \<and>
           num_hashes bf = \<lceil>y\<rceil> \<and>
           bit_array bf = replicate (nat (size_bf bf)) False \<and> length (bit_array bf) = nat (size_bf bf) \<and>
           items_added bf = 0 \<and> expected_items bf = n \<and> false_positive_rate bf = p"
proof -
  from assms obtain m k where m: "calculate_optimal_size n p = Inr m"
    and k: "calculate_optimal_hash_count m n = Inr k"
    and bf: "bf = \<lparr>expected_items = n, false_positive_rate = p, size_bf = m, num_hashes = k,
                    bit_array = replicate (nat m) False, items_added = 0\<rparr>"
    by (auto simp: BloomFilter_init_def split: sum.splits)
  from m obtain lp where lp: "math_log p = Inr lp"
    by (cases "math_log p") (simp_all add: calculate_optimal_size_def)
  from m lp obtain fn where fn: "float_of_int n = Inr fn"
    by (cases "float_of_int n") (simp_all add: calculate_optimal_size_def)
  from m obtain x where x: "fdiv (fneg (fmul fn lp)) (Float double_log2_sq) = Inr (Float x)"
    and mx: "m = \<lceil>x\<rceil>"
    unfolding calculate_optimal_size_eq [OF lp fn]
    by (cases "fdiv (fneg (fmul fn lp)) (Float double_log2_sq)";
        cases "projr (fdiv (fneg (fmul fn lp)) (Float double_log2_sq))")
       (auto simp: math_ceil_def)
  from k obtain q y where q: "int_truediv m n = Inr q"
    and y: "fmul q (Float double_log2) = Float y" and ky: "k = \<lceil>y\<rceil>"
    unfolding calculate_optimal_hash_count_eq
    by (cases "int_truediv m n"; cases "fmul (projr (int_truediv m n)) (Float double_log2)")
       (auto simp: math_ceil_def)
  show ?thesis using lp fn x mx q y ky bf by simp
qed

theorem init_computes_witness:
  "BloomFilter_init 1 (Float (1/2)) = Inr bf_example \<and>
   (\<exists>lp fn x q y.
           math_log (Float (1/2)) = Inr lp \<and> float_of_int 1 = Inr fn \<and>
           fdiv (fneg (fmul fn lp)) (Float double_log2_sq) = Inr (Float x) \<and>
           size_bf bf_example = \<lceil>x\<rceil> \<and>
           int_truediv (size_bf bf_example) 1 = Inr q \<and> fmul q (Float double_log2) = Float y \<and>
           num_hashes bf_example = \<lceil>y\<rceil> \<and>
           bit_array bf_example = replicate (nat (size_bf bf_example)) False \<and>
           length (bit_array bf_example) = nat (size_bf bf_example) \<and>
           items_added bf_example = 0 \<and> expected_items bf_example = 1 \<and>
           false_positive_rate bf_example = Float (1/2))"
  using init_computes [OF BloomFilter_init_example] BloomFilter_init_example by simp

text \<open>
  Claim C7 as stated fails: the two ceilings are those of rounded floats, not
  of the real numbers of the formulas.  For \<open>BloomFilter(49180508, 0.5)\<close> the
  size is 70952475, as the formula on reals gives; the float product
  \<open>(70952475 / 49180508) * math.log(2)\<close> is exactly 1.0, so that the filter has
  one hash function, while \<open>(m / n) ln 2\<close> is greater than 1 and the formula
  gives 2.
\<close>

theorem hash_count_counterexample:
  "BloomFilter_init 49180508 (Float (1/2)) =
     Inr \<lparr>expected_items = 49180508, false_positive_rate = Float (1/2), size_bf = 70952475,
          num_hashes = 1, bit_array = replicate 70952475 False, items_added = 0\<rparr> \<and>
   spec_size 49180508 (1/2) = 70952475 \<and> spec_hash_count 70952475 49180508 = 2"
  by (simp add: BloomFilter_init_def size_at_half hash_count_at_half spec_at_half)


subsection \<open>Arguments that are not usable strings\<close>

text \<open>
  Claim C8.  For every filter and every argument that is not a string, or is a
  string that is empty after \<open>lower()\<close> and \<open>strip()\<close>: \<open>add\<close> returns without
  raising and leaves the filter as it is (no bit set, counter unchanged), and
  \<open>contains\<close> returns \<open>False\<close> without raising.
\<close>

theorem invalid_input_noop:
  assumes "(\<forall>s. item \<noteq> PyStr s) \<or> (\<exists>s. item = PyStr s \<and> strip (lower s) = [])"
  shows "add bf item = (None, bf) \<and> contains bf item = (Inr False, bf)"
  using assms by (auto simp: add_def contains_def strip_lower_Nil split: pyval.splits)

theorem invalid_input_noop_witness:
  "((\<forall>s. PyInt 7 \<noteq> PyStr s) \<or> (\<exists>s. PyInt 7 = PyStr s \<and> strip (lower s) = [])) \<and>
   add bf_example (PyInt 7) = (None, bf_example) \<and>
   contains bf_example (PyInt 7) = (Inr False, bf_example)"
  using invalid_input_noop [of "PyInt 7" bf_example] by simp

subsection \<open>Queries do not write\<close>

lemma contains_state: "snd (contains bf item) = bf"
  by (simp add: contains_def split: pyval.splits sum.splits)

text \<open>
  Claim C10.  For every filter and every argument, string or not, added or
  not, \<open>contains\<close> leaves the filter unchanged: every field (\<open>bit_array\<close>,
  \<open>items_added\<close>, \<open>size\<close>, \<open>num_hashes\<close> and the two configuration fields) is
  after the call what it was before; \<open>_get_hash_values\<close>, which it calls, only
  computes the list of indices.
\<close>

theorem contains_unchanged:
  "snd (contains bf item) = bf \<and>
   (\<exists>indices_or_error. get_hash_values bf s = indices_or_error)"
  by (simp add: contains_def split: pyval.splits sum.splits)

subsection \<open>Clearing\<close>

lemma step_frame:
  "size_bf (snd (step bf op)) = size_bf bf \<and> num_hashes (snd (step bf op)) = num_hashes bf \<and>
   expected_items (snd (step bf op)) = expected_items bf \<and>
   false_positive_rate (snd (step bf op)) = false_positive_rate bf"
proof (cases op)
  case (Add item)
  then show ?thesis using add_frame [of bf item]
    by (auto split: prod.splits option.splits)
next
  case (Contains item)
  then show ?thesis using contains_state [of bf item]
    by (auto split: prod.splits sum.splits)
next
  case Clear
  then show ?thesis by (simp add: clear_def)
qed

lemma run_frame:
  "size_bf (snd (run bf ops)) = size_bf bf \<and> num_hashes (snd (run bf ops)) = num_hashes bf \<and>
   expected_items (snd (run bf ops)) = expected_items bf \<and>
   false_positive_rate (snd (run bf ops)) = false_positive_rate bf"
proof (induction ops arbitrary: bf)
  case Nil
  then show ?case by simp
next
  case (Cons op ops)
  have "snd (run bf (op # ops)) = snd (run (snd (step bf op)) ops)"
    by (simp split: prod.splits)
  with Cons [of "snd (step bf op)"] step_frame [of bf op] show ?case by simp
qed

text \<open>
  Claim C9.  For every filter reached from a constructed one by any sequence of
  \<open>add\<close>, \<open>contains\<close> and \<open>clear\<close> calls, \<open>clear()\<close> gives exactly the filter the
  constructor returned for that configuration: all bits cleared, the counter 0,
  every other field as constructed.  Every later sequence of calls therefore
  returns, raises and leaves behind what it does on a fresh instance; the
  diagnostics read the fields only, so they agree as well.
\<close>

theorem clear_is_fresh:
  assumes "BloomFilter_init n p = Inr bf0"
  shows "clear (snd (run bf0 ops)) = bf0 \<and>
         run (clear (snd (run bf0 ops))) ops' = run bf0 ops'"
proof -
  from assms have b0: "bit_array bf0 = replicate (nat (size_bf bf0)) False" "items_added bf0 = 0"
    by (auto simp: BloomFilter_init_def split: sum.splits)
  have "clear (snd (run bf0 ops)) = \<lparr>expected_items = expected_items bf0,
      false_positive_rate = false_positive_rate bf0, size_bf = size_bf bf0,
      num_hashes = num_hashes bf0, bit_array = replicate (nat (size_bf bf0)) False,
      items_added = 0\<rparr>"
    using run_frame [of bf0 ops] by (simp add: clear_def)
  also have "\<dots> = bf0" using b0 by simp
  finally show ?thesis by simp
qed

theorem clear_is_fresh_witness:
  "BloomFilter_init 1 (Float (1/2)) = Inr bf_example \<and>
   clear (snd (run bf_example [Add (PyStr ''ab''), Contains (PyStr ''ab'')])) = bf_example \<and>
   run (clear (snd (run bf_example [Add (PyStr ''ab''), Contains (PyStr ''ab'')])))
       [Add (PyStr ''cd'')] = run bf_example [Add (PyStr ''cd'')]"
  using clear_is_fresh [OF BloomFilter_init_example, of "[Add (PyStr ''ab''), Contains (PyStr ''ab'')]"
      "[Add (PyStr ''cd'')]"] BloomFilter_init_example by simp

section \<open>Properties of the reputation tree\<close>

subsection \<open>The two descent loops\<close>

lemma insert_loop_nil: "insert_loop t d par (NIL t) = Some (Fell_off par)"
  by (subst insert_loop.simps) simp

lemma insert_loop_eq:
  "cur \<noteq> NIL t \<Longrightarrow> d = domain (heap t cur) \<Longrightarrow> insert_loop t d par cur = Some (Found cur)"
  by (subst insert_loop.simps) simp

lemma insert_loop_less:
  "cur \<noteq> NIL t \<Longrightarrow> d < domain (heap t cur) \<Longrightarrow>
   insert_loop t d par cur = insert_loop t d (Some cur) (left (heap t cur))"
  by (subst insert_loop.simps) simp

lemma insert_loop_greater:
  "cur \<noteq> NIL t \<Longrightarrow> domain (heap t cur) < d \<Longrightarrow>
   insert_loop t d par cur = insert_loop t d (Some cur) (right (heap t cur))"
  by (subst insert_loop.simps) auto

lemma search_loop_nil: "search_loop t d (NIL t) = Some None"
  by (subst search_loop.simps) simp

lemma search_loop_eq:
  "cur \<noteq> NIL t \<Longrightarrow> d = domain (heap t cur) \<Longrightarrow> search_loop t d cur = Some (Some cur)"
  by (subst search_loop.simps) simp

lemma search_loop_less:
  "cur \<noteq> NIL t \<Longrightarrow> d < domain (heap t cur) \<Longrightarrow>
   search_loop t d cur = search_loop t d (left (heap t cur))"
  by (subst search_loop.simps) auto

lemma search_loop_greater:
  "cur \<noteq> NIL t \<Longrightarrow> domain (heap t cur) < d \<Longrightarrow>
   search_loop t d cur = search_loop t d (right (heap t cur))"
  by (subst search_loop.simps) auto

lemma search_loop_found:
  "search_loop t d cur = Some r \<Longrightarrow>
   r = Some a \<longrightarrow> a \<noteq> NIL t \<and> domain (heap t a) = d \<and>
           (\<forall>par. insert_loop t d par cur = Some (Found a))"
proof (erule search_loop.raw_induct [rotated], goal_cases)
  case (1 search_loop' t d cur r)
  show ?case
  proof (cases "cur = NIL t")
    case True
    with 1(2) show ?thesis by simp
  next
    case nn: False
    show ?thesis
    proof (cases "d = domain (heap t cur)")
      case True
      with nn 1(2) show ?thesis by (auto simp: insert_loop_eq)
    next
      case ne: False
      show ?thesis
      proof (cases "d < domain (heap t cur)")
        case True
        with nn ne 1(2) have "search_loop' t d (left (heap t cur)) = Some r" by simp
        from 1(1) [OF this] True nn show ?thesis
          by (auto simp: insert_loop_less)
      next
        case False
        with ne have gt: "d > domain (heap t cur)" by auto
        from False nn ne 1(2) have "search_loop' t d (right (heap t cur)) = Some r" by simp
        from 1(1) [OF this] False gt nn show ?thesis
          by (auto simp: insert_loop_greater)
      qed
    qed
  qed
qed

lemma fixup_loop_stop: "\<not> fixup_cond t node \<Longrightarrow> fixup_loop t node = Some (Inr t)"
  by (subst fixup_loop.simps) simp

subsection \<open>The example tree\<close>

lemma insert_example: "insert_domain RedBlackTree_init ''a'' 50 = Some (Inr (1, rb_example))"
  by (simp add: insert_domain_def RedBlackTree_init_def insert_loop_nil [of "\<lparr>heap = h, next_addr = n, NIL = 0, root_rb = r, size_rb = s\<rparr>" for h n r s, simplified]
      new_node_def Let_def insert_fixup_def fixup_loop_stop fixup_cond_def
      set_color_def rb_example_def)

lemma search_example:
  "search_domain rb_example ''a'' = Some (Some 1, rb_example)"
  "search_domain rb_example ''b'' = Some (None, rb_example)"
proof -
  have n: "NIL rb_example = 0" "root_rb rb_example = 1" "domain (heap rb_example 1) = ''a''"
    "left (heap rb_example 1) = 0" "right (heap rb_example 1) = 0"
    by (simp_all add: rb_example_def)
  have "search_loop rb_example ''a'' 1 = Some (Some 1)"
    by (rule search_loop_eq) (simp_all add: rb_example_def)
  then show "search_domain rb_example ''a'' = Some (Some 1, rb_example)"
    by (simp add: search_domain_def n)
  have "search_loop rb_example ''b'' 1 = search_loop rb_example ''b'' (right (heap rb_example 1))"
    by (rule search_loop_greater) (simp_all add: rb_example_def)
  also have "\<dots> = Some None" using search_loop_nil [of rb_example] by (simp add: rb_example_def)
  finally have "search_loop rb_example ''b'' 1 = Some None" .
  then show "search_domain rb_example ''b'' = Some (None, rb_example)"
    by (simp add: search_domain_def n)
qed

subsection \<open>Inserting a domain that is present\<close>

text \<open>
  Claim C6.  On every tree and for every domain that \<open>search_domain\<close> finds
  there, at the node \<open>a\<close>: \<open>insert_domain\<close> with that domain returns the node
  \<open>a\<close> itself, and the tree it leaves differs from the one before in the
  \<open>reputation_score\<close> of \<open>a\<close> alone, which is the new score.  The size, the
  root, every link, every colour and every report counter are those of before;
  no node is created.
\<close>

theorem insert_existing:
  assumes "search_domain t d = Some (Some a, t)"
  shows "insert_domain t d s =
           Some (Inr (a, t\<lparr>heap := (heap t)(a := (heap t a)\<lparr>reputation_score := s\<rparr>)\<rparr>)) \<and>
         domain (heap t a) = d"
proof -
  from assms have "search_loop t d (root_rb t) = Some (Some a)"
    by (auto simp: search_domain_def)
  from search_loop_found [OF this, of a] show ?thesis
    by (simp add: insert_domain_def)
qed

theorem insert_existing_witness:
  "search_domain rb_example ''a'' = Some (Some 1, rb_example) \<and>
   insert_domain rb_example ''a'' 7 =
     Some (Inr (1, rb_example\<lparr>heap := (heap rb_example)(1 := (heap rb_example 1)\<lparr>reputation_score := 7\<rparr>)\<rparr>)) \<and>
   domain (heap rb_example 1) = ''a''"
  using insert_existing [OF search_example(1), of 7] search_example(1) by simp

subsection \<open>Reports\<close>

text \<open>
  Claim C4.  When \<open>search_domain\<close> finds the domain at the node \<open>a\<close>,
  \<open>increment_spam_reports(d, n)\<close> adds \<open>n\<close> to \<open>spam_reports\<close> of \<open>a\<close>, sets its
  score to \<open>max(0, score - 5 n)\<close> and returns that score, and
  \<open>increment_legitimate_reports(d, n)\<close> adds \<open>n\<close> to \<open>legitimate_reports\<close>, sets
  the score to \<open>min(100, score + 3 n)\<close> and returns it; nothing else in the tree
  changes.  When \<open>search_domain\<close> finds nothing, both return \<open>None\<close> and the
  tree is the one before.
\<close>

theorem increment_reports:
  "(search_domain t d = Some (Some a, t) \<longrightarrow>
      increment_spam_reports t d n =
        Some (Some (max 0 (reputation_score (heap t a) - n * 5)),
              t\<lparr>heap := (heap t)(a := (heap t a)
                   \<lparr>spam_reports := spam_reports (heap t a) + n,
                    reputation_score := max 0 (reputation_score (heap t a) - n * 5)\<rparr>)\<rparr>) \<and>
      increment_legitimate_reports t d n =
        Some (Some (min 100 (reputation_score (heap t a) + n * 3)),
              t\<lparr>heap := (heap t)(a := (heap t a)
                   \<lparr>legitimate_reports := legitimate_reports (heap t a) + n,
                    reputation_score := min 100 (reputation_score (heap t a) + n * 3)\<rparr>)\<rparr>)) \<and>
   (search_domain t d = Some (None, t) \<longrightarrow>
      increment_spam_reports t d n = Some (None, t) \<and>
      increment_legitimate_reports t d n = Some (None, t))"
  by (simp add: increment_spam_reports_def increment_legitimate_reports_def Let_def)

theorem increment_reports_witness:
  "search_domain rb_example ''a'' = Some (Some 1, rb_example) \<and>
   increment_spam_reports rb_example ''a'' 11 =
     Some (Some 0, rb_example\<lparr>heap := (heap rb_example)(1 := (heap rb_example 1)
            \<lparr>spam_reports := 11, reputation_score := 0\<rparr>)\<rparr>) \<and>
   increment_legitimate_reports rb_example ''a'' 20 =
     Some (Some 100, rb_example\<lparr>heap := (heap rb_example)(1 := (heap rb_example 1)
            \<lparr>legitimate_reports := 20, reputation_score := 100\<rparr>)\<rparr>) \<and>
   search_domain rb_example ''b'' = Some (None, rb_example) \<and>
   increment_spam_reports rb_example ''b'' 11 = Some (None, rb_example) \<and>
   increment_legitimate_reports rb_example ''b'' 20 = Some (None, rb_example)"
proof -
  have s: "reputation_score (heap rb_example 1) = 50" "spam_reports (heap rb_example 1) = 0"
    "legitimate_reports (heap rb_example 1) = 0"
    by (simp_all add: rb_example_def)
  from increment_reports [of rb_example "''a''" 1 11] increment_reports [of rb_example "''a''" 1 20]
    increment_reports [of rb_example "''b''" 1 11] increment_reports [of rb_example "''b''" 1 20]
    search_example s
  show ?thesis by simp
qed

end
